theory Spec2Isabelle
  imports Main
begin

section \<open>Strings\<close>

text \<open>
  A JavaScript string is a sequence of UTF-16 code units. A code unit is modelled as a
  natural number, a string as the list of its code units, so that \<open>length\<close> is the
  \<^verbatim>\<open>.length\<close> of the source and \<open>take\<close>/\<open>drop\<close> are \<^verbatim>\<open>substring\<close>/\<^verbatim>\<open>slice\<close>.
  \<open>js\<close> turns an ASCII literal into such a string.
\<close>

type_synonym jsstring = "nat list"

definition js :: "string \<Rightarrow> jsstring" where
  "js s = map of_char s"

section \<open>Regular expressions\<close>

text \<open>
  The client code is built from regular-expression literals. They are embedded as terms of
  the datatype \<open>re\<close> and run by a backtracking matcher that follows the ECMAScript
  matching rules: alternatives are tried left to right, a greedy quantifier tries one more
  iteration before it tries to go on, a lazy one the other way round, an iteration of a
  quantifier with minimum 0 that consumes nothing is rejected, and a lookahead keeps only
  its first way of matching.
\<close>

subsection \<open>Character classes\<close>

text \<open>\<^verbatim>\<open>\s\<close>, which is also what \<^verbatim>\<open>trim\<close> strips: WhiteSpace and LineTerminator.\<close>

definition is_space :: "nat \<Rightarrow> bool" where
  "is_space c \<longleftrightarrow>
     c \<in> {9, 10, 11, 12, 13, 32, 160, 5760, 8232, 8233, 8239, 8287, 12288, 65279}
     \<or> (8192 \<le> c \<and> c \<le> 8202)"

text \<open>The code units that \<^verbatim>\<open>.\<close> does not match and after which a multiline \<^verbatim>\<open>^\<close> matches.\<close>

definition is_line_terminator :: "nat \<Rightarrow> bool" where
  "is_line_terminator c \<longleftrightarrow> c \<in> {10, 13, 8232, 8233}"

definition is_digit :: "nat \<Rightarrow> bool" where
  "is_digit c \<longleftrightarrow> 48 \<le> c \<and> c \<le> 57"

definition is_upper :: "nat \<Rightarrow> bool" where
  "is_upper c \<longleftrightarrow> 65 \<le> c \<and> c \<le> 90"

definition is_lower :: "nat \<Rightarrow> bool" where
  "is_lower c \<longleftrightarrow> 97 \<le> c \<and> c \<le> 122"

text \<open>\<^verbatim>\<open>\w\<close>, which decides \<^verbatim>\<open>\b\<close>.\<close>

definition is_word :: "nat \<Rightarrow> bool" where
  "is_word c \<longleftrightarrow> is_upper c \<or> is_lower c \<or> is_digit c \<or> c = 95"

text \<open>
  A pattern character \<open>p\<close> under the \<^verbatim>\<open>i\<close> flag (without \<^verbatim>\<open>u\<close>): both sides are
  upper-cased, and a code unit outside ASCII is never mapped into ASCII, so an ASCII letter
  matches exactly its two cases and any other ASCII character only itself.
\<close>

definition chr_i :: "nat \<Rightarrow> nat \<Rightarrow> bool" where
  "chr_i p c \<longleftrightarrow> c = p \<or> (is_upper p \<and> c = p + 32) \<or> (is_lower p \<and> c + 32 = p)"

subsection \<open>Patterns and the matcher\<close>

datatype re =
    Chr "nat \<Rightarrow> bool"
  | Eps
  | Seq re re
  | Alt re re
  | Rep bool nat "nat option" re
  | Grp nat re
  | Look re
  | Bol bool
  | Eol
  | Wordb

text \<open>
  \<open>Chr P\<close> is a character class, \<open>Rep greedy min max r\<close> a quantifier (\<open>max = None\<close>:
  unbounded), \<open>Grp n r\<close> the capturing group number \<open>n\<close>, \<open>Look r\<close> the lookahead
  \<^verbatim>\<open>(?=r)\<close>, \<open>Bol m\<close> the assertion \<^verbatim>\<open>^\<close> (\<open>m\<close>: the \<^verbatim>\<open>m\<close> flag is set), \<open>Eol\<close> the
  assertion \<^verbatim>\<open>$\<close> without the \<^verbatim>\<open>m\<close> flag, \<open>Wordb\<close> is \<^verbatim>\<open>\b\<close>.

  A matcher state is the input read so far, reversed, the input still to read, and the
  captures made so far, the latest first.
\<close>

type_synonym captures = "(nat \<times> jsstring) list"
type_synonym mstate = "jsstring \<times> jsstring \<times> captures"

fun rsize :: "re \<Rightarrow> nat" where
  "rsize (Seq a b) = Suc (rsize a + rsize b)"
| "rsize (Alt a b) = Suc (rsize a + rsize b)"
| "rsize (Rep g mn mx r) = Suc (rsize r)"
| "rsize (Grp g r) = Suc (rsize r)"
| "rsize (Look r) = Suc (rsize r)"
| "rsize _ = 0"

fun rep_min :: "re \<Rightarrow> nat" where
  "rep_min (Rep g mn mx r) = mn"
| "rep_min _ = 0"

text \<open>
  \<open>ms r st\<close> lists the states in which a match of \<open>r\<close> from \<open>st\<close> can end, in the order
  in which backtracking tries them; the match that the engine reports is the first one.
  In the quantifier, \<open>length rest' < length rest\<close> says that the iteration consumed input.
  None of the patterns of the source has a capturing group inside a quantifier, so the
  reset of such captures at each iteration is not modelled.
\<close>

function ms :: "re \<Rightarrow> mstate \<Rightarrow> mstate list" where
  "ms (Chr P) (pre, rest, caps) =
     (case rest of [] \<Rightarrow> [] | c # cs \<Rightarrow> if P c then [(c # pre, cs, caps)] else [])"
| "ms Eps st = [st]"
| "ms (Seq a b) st = concat (map (ms b) (ms a st))"
| "ms (Alt a b) st = ms a st @ ms b st"
| "ms (Grp g r) (pre, rest, caps) =
     map (\<lambda>(pre', rest', caps'). (pre', rest', (g, rev (take (length pre' - length pre) pre')) # caps'))
       (ms r (pre, rest, caps))"
| "ms (Look r) (pre, rest, caps) =
     (case ms r (pre, rest, caps) of [] \<Rightarrow> [] | (pre', rest', caps') # _ \<Rightarrow> [(pre, rest, caps')])"
| "ms (Bol multiline) (pre, rest, caps) =
     (case pre of [] \<Rightarrow> [(pre, rest, caps)]
      | c # _ \<Rightarrow> if multiline \<and> is_line_terminator c then [(pre, rest, caps)] else [])"
| "ms Eol (pre, rest, caps) = (case rest of [] \<Rightarrow> [(pre, rest, caps)] | _ # _ \<Rightarrow> [])"
| "ms Wordb (pre, rest, caps) =
     (if (case pre of [] \<Rightarrow> False | c # _ \<Rightarrow> is_word c) \<noteq> (case rest of [] \<Rightarrow> False | c # _ \<Rightarrow> is_word c)
      then [(pre, rest, caps)] else [])"
| "ms (Rep greedy mn mx r) (pre, rest, caps) =
     (if mx = Some 0 then [(pre, rest, caps)]
      else if mn \<noteq> 0 then
        concat (map (ms (Rep greedy (mn - 1) (map_option (\<lambda>m. m - 1) mx) r)) (ms r (pre, rest, caps)))
      else if greedy then
        concat (map (\<lambda>(pre', rest', caps'). if length rest' < length rest
                       then ms (Rep greedy 0 (map_option (\<lambda>m. m - 1) mx) r) (pre', rest', caps') else [])
                  (ms r (pre, rest, caps))) @ [(pre, rest, caps)]
      else
        (pre, rest, caps) #
        concat (map (\<lambda>(pre', rest', caps'). if length rest' < length rest
                       then ms (Rep greedy 0 (map_option (\<lambda>m. m - 1) mx) r) (pre', rest', caps') else [])
                  (ms r (pre, rest, caps))))"
  by pat_completeness auto
termination
  by (relation "measures [\<lambda>(r, st). rsize r, \<lambda>(r, st). rep_min r, \<lambda>(r, pre, rest, caps). length rest]")
     auto

definition first_match :: "re \<Rightarrow> mstate \<Rightarrow> mstate option" where
  "first_match r st = (case ms r st of [] \<Rightarrow> None | x # _ \<Rightarrow> Some x)"

text \<open>
  The same search with a continuation: \<open>mk r k st\<close> is the first result that \<open>k\<close> gives
  on the ways of matching \<open>r\<close> from \<open>st\<close>. It is used to compute \<open>first_match\<close> without
  listing the ways that backtracking never reaches.
\<close>

fun first_some :: "('a \<Rightarrow> 'b option) \<Rightarrow> 'a list \<Rightarrow> 'b option" where
  "first_some k [] = None"
| "first_some k (x # xs) = (case k x of None \<Rightarrow> first_some k xs | Some y \<Rightarrow> Some y)"

definition mk :: "re \<Rightarrow> (mstate \<Rightarrow> 'b option) \<Rightarrow> mstate \<Rightarrow> 'b option" where
  "mk r k st = first_some k (ms r st)"

subsection \<open>The operations of \<^verbatim>\<open>RegExp\<close> and \<^verbatim>\<open>String\<close> that the code uses\<close>

text \<open>
  \<open>exec_from r pre rest\<close> looks for the leftmost match in \<open>rest\<close> (with \<open>pre\<close> the reversed
  input before it): the reversed input before the match, and the state where it ends.
\<close>

fun exec_from :: "re \<Rightarrow> jsstring \<Rightarrow> jsstring \<Rightarrow> (jsstring \<times> mstate) option" where
  "exec_from r pre [] =
     (case first_match r (pre, [], []) of None \<Rightarrow> None | Some x \<Rightarrow> Some (pre, x))"
| "exec_from r pre (c # cs) =
     (case first_match r (pre, c # cs, []) of
        None \<Rightarrow> exec_from r (c # pre) cs
      | Some x \<Rightarrow> Some (pre, x))"

text \<open>\<^verbatim>\<open>rx.exec(s)\<close> and \<^verbatim>\<open>s.match(rx)\<close> for a pattern without the \<^verbatim>\<open>g\<close> flag: the captures.\<close>

definition re_exec :: "re \<Rightarrow> jsstring \<Rightarrow> captures option" where
  "re_exec r s = (case exec_from r [] s of None \<Rightarrow> None | Some (p, p', rest', caps) \<Rightarrow> Some caps)"

text \<open>\<^verbatim>\<open>m[n]\<close>: \<open>None\<close> is \<^verbatim>\<open>undefined\<close>.\<close>

definition capture :: "captures \<Rightarrow> nat \<Rightarrow> jsstring option" where
  "capture caps n = map_of caps n"

definition re_test :: "re \<Rightarrow> jsstring \<Rightarrow> bool" where
  "re_test r s \<longleftrightarrow> exec_from r [] s \<noteq> None"

text \<open>\<^verbatim>\<open>s.search(rx)\<close>: the index of the leftmost match, or -1.\<close>

definition re_search :: "re \<Rightarrow> jsstring \<Rightarrow> int" where
  "re_search r s = (case exec_from r [] s of None \<Rightarrow> - 1 | Some (p, x) \<Rightarrow> int (length p))"

text \<open>\<^verbatim>\<open>s.replace(rx, t)\<close> for a pattern without the \<^verbatim>\<open>g\<close> flag and \<open>t\<close> without \<^verbatim>\<open>$\<close>.\<close>

definition re_replace :: "re \<Rightarrow> jsstring \<Rightarrow> jsstring \<Rightarrow> jsstring" where
  "re_replace r s t =
     (case exec_from r [] s of None \<Rightarrow> s | Some (p, p', rest', caps) \<Rightarrow> rev p @ t @ rest')"

text \<open>
  \<^verbatim>\<open>s.replace(rx, t)\<close> for a pattern with the \<^verbatim>\<open>g\<close> flag: the matches are looked for from
  left to right, each search starting where the last match ended, or one code unit further
  when that match was empty.
\<close>

function replace_all :: "re \<Rightarrow> jsstring \<Rightarrow> jsstring \<Rightarrow> jsstring \<Rightarrow> jsstring" where
  "replace_all r t pre [] = (case first_match r (pre, [], []) of None \<Rightarrow> [] | Some x \<Rightarrow> t)"
| "replace_all r t pre (c # cs) =
     (case first_match r (pre, c # cs, []) of
        None \<Rightarrow> c # replace_all r t (c # pre) cs
      | Some (pre', rest', caps') \<Rightarrow>
          if length rest' < length (c # cs) then t @ replace_all r t pre' rest'
          else t @ c # replace_all r t (c # pre) cs)"
  by pat_completeness auto
termination
  by (relation "measure (\<lambda>(r, t, pre, rest). length rest)") auto

definition re_replace_all :: "re \<Rightarrow> jsstring \<Rightarrow> jsstring \<Rightarrow> jsstring" where
  "re_replace_all r s t = replace_all r t [] s"

text \<open>
  The loop \<^verbatim>\<open>while ((m = rx.exec(s)))\<close> for a pattern with the \<^verbatim>\<open>g\<close> flag: the captures
  of the successive matches. Each search starts at \<^verbatim>\<open>lastIndex\<close>, the end of the last match;
  after an empty match \<^verbatim>\<open>lastIndex\<close> does not move and the loop finds the same match for ever:
  the result is then \<open>None\<close>.
\<close>

function match_all :: "re \<Rightarrow> jsstring \<Rightarrow> jsstring \<Rightarrow> captures list option" where
  "match_all r pre [] = (case first_match r (pre, [], []) of None \<Rightarrow> Some [] | Some x \<Rightarrow> None)"
| "match_all r pre (c # cs) =
     (case first_match r (pre, c # cs, []) of
        None \<Rightarrow> match_all r (c # pre) cs
      | Some (pre', rest', caps') \<Rightarrow>
          if length rest' < length (c # cs)
          then map_option (\<lambda>found. caps' # found) (match_all r pre' rest')
          else None)"
  by pat_completeness auto
termination
  by (relation "measure (\<lambda>(r, pre, rest). length rest)") auto

text \<open>
  \<^verbatim>\<open>s.split(rx)\<close> for a separator without capturing groups. \<open>cur\<close> is the piece being read,
  reversed. A match that ends where the current piece starts does not split.
\<close>

function split_loop :: "re \<Rightarrow> jsstring \<Rightarrow> jsstring \<Rightarrow> jsstring \<Rightarrow> jsstring list" where
  "split_loop r pre cur [] = [rev cur]"
| "split_loop r pre cur (c # cs) =
     (case first_match r (pre, c # cs, []) of
        None \<Rightarrow> split_loop r (c # pre) (c # cur) cs
      | Some (pre', rest', caps') \<Rightarrow>
          if length rest' < length (c # cs) then rev cur # split_loop r pre' [] rest'
          else if cur = [] then split_loop r (c # pre) (c # cur) cs
          else rev cur # split_loop r pre [] (c # cs))"
  by pat_completeness auto
termination
  by (relation "measures [\<lambda>(r, pre, cur, rest). length rest, \<lambda>(r, pre, cur, rest). length cur]") auto

definition re_split :: "re \<Rightarrow> jsstring \<Rightarrow> jsstring list" where
  "re_split r s =
     (if s = [] then (case first_match r ([], [], []) of None \<Rightarrow> [[]] | Some x \<Rightarrow> [])
      else split_loop r [] [] s)"

text \<open>\<^verbatim>\<open>s.trim()\<close>.\<close>

definition trim :: "jsstring \<Rightarrow> jsstring" where
  "trim s = rev (dropWhile is_space (rev (dropWhile is_space s)))"

text \<open>\<^verbatim>\<open>xs.join(sep)\<close>.\<close>

fun join :: "jsstring \<Rightarrow> jsstring list \<Rightarrow> jsstring" where
  "join sep [] = []"
| "join sep [x] = x"
| "join sep (x # y # ys) = x @ sep @ join sep (y # ys)"

subsection \<open>Writing patterns\<close>

fun seq :: "re list \<Rightarrow> re" where
  "seq [] = Eps"
| "seq [r] = r"
| "seq (r # r' # rs) = Seq r (seq (r' # rs))"

fun alts :: "re list \<Rightarrow> re" where
  "alts [] = Eps"
| "alts [r] = r"
| "alts (r # r' # rs) = Alt r (alts (r' # rs))"

definition ch :: "char \<Rightarrow> re" where
  "ch p = Chr (\<lambda>c. c = of_char p)"

definition ch_i :: "char \<Rightarrow> re" where
  "ch_i p = Chr (chr_i (of_char p))"

definition lit :: "string \<Rightarrow> re" where
  "lit s = seq (map ch s)"

definition lit_i :: "string \<Rightarrow> re" where
  "lit_i s = seq (map ch_i s)"

text \<open>\<^verbatim>\<open>\s\<close>, \<^verbatim>\<open>\d\<close>, \<^verbatim>\<open>[\s\S]\<close>, \<^verbatim>\<open>.\<close> and \<^verbatim>\<open>\n\<close>.\<close>

definition space :: re where
  "space = Chr is_space"

definition digit :: re where
  "digit = Chr is_digit"

definition anything :: re where
  "anything = Chr (\<lambda>c. is_space c \<or> \<not> is_space c)"

definition dot :: re where
  "dot = Chr (\<lambda>c. \<not> is_line_terminator c)"

definition nl :: re where
  "nl = Chr (\<lambda>c. c = 10)"

text \<open>\<^verbatim>\<open>r*\<close>, \<^verbatim>\<open>r+\<close>, \<^verbatim>\<open>r?\<close>, \<^verbatim>\<open>r*?\<close> and \<^verbatim>\<open>r+?\<close>.\<close>

definition rstar :: "re \<Rightarrow> re" where
  "rstar r = Rep True 0 None r"

definition rplus :: "re \<Rightarrow> re" where
  "rplus r = Rep True 1 None r"

definition ropt :: "re \<Rightarrow> re" where
  "ropt r = Rep True 0 (Some 1) r"

definition rstar_lazy :: "re \<Rightarrow> re" where
  "rstar_lazy r = Rep False 0 None r"

definition rplus_lazy :: "re \<Rightarrow> re" where
  "rplus_lazy r = Rep False 1 None r"

section \<open>Client: cleanup and structurers\<close>

datatype StudyGuideType = Summary | Points | Flashcards | Quiz | Outline

subsection \<open>\<^verbatim>\<open>cleanContent\<close>\<close>

text \<open>
  The eight \<^verbatim>\<open>preamblePatterns\<close> have the shape \<^verbatim>\<open>/^\s*PHRASE\b[^\n]*\n?/i\<close>.
\<close>

definition preamble :: "re \<Rightarrow> re" where
  "preamble phrase =
     seq [Bol False, rstar space, phrase, Wordb, rstar (Chr (\<lambda>c. c \<noteq> 10)), ropt nl]"

definition preamblePatterns :: "re list" where
  "preamblePatterns =
     [preamble (seq [lit_i ''Here '', alts [lit_i ''is'', lit_i ''are'']]),
      preamble (lit_i ''I'll''),
      preamble (lit_i ''I can''),
      preamble (lit_i ''Let me''),
      preamble (lit_i ''Based on''),
      preamble (lit_i ''Given''),
      preamble (lit_i ''It appears''),
      preamble (seq [lit_i ''Note:'', rstar space, lit_i ''This''])]"

text \<open>\<^verbatim>\<open>/\b(Question:|Q:|\d+\.|\*\s|\-\s)/i\<close>\<close>

definition flashcardMarker :: re where
  "flashcardMarker =
     seq [Wordb,
          Grp 1 (alts [lit_i ''Question:'', lit_i ''Q:'', seq [rplus digit, ch CHR ''.''],
                       seq [ch CHR ''*'', space], seq [ch CHR ''-'', space]])]"

text \<open>\<^verbatim>\<open>/^(#|\*\s|\-\s|\d+\.|I\.|II\.)/m\<close>\<close>

definition structuralMarker :: re where
  "structuralMarker =
     seq [Bol True,
          Grp 1 (alts [ch CHR ''#'', seq [ch CHR ''*'', space], seq [ch CHR ''-'', space],
                       seq [rplus digit, ch CHR ''.''], lit ''I.'', lit ''II.''])]"

text \<open>
  \<^verbatim>\<open>/(?:\n|\s)*(?:I hope this helps|Let me know if you need|Would you like me|Feel free to ask)[\s\S]*$/i\<close>
\<close>

definition trailingPattern :: re where
  "trailingPattern =
     seq [rstar (Alt nl space),
          alts [lit_i ''I hope this helps'', lit_i ''Let me know if you need'',
                lit_i ''Would you like me'', lit_i ''Feel free to ask''],
          rstar anything, Eol]"

text \<open>\<^verbatim>\<open>/\n{3,}/g\<close>\<close>

definition newlines3 :: re where
  "newlines3 = Rep True 3 None nl"

text \<open>The index that decides the cut: the search of the marker of the kind.\<close>

definition markerIndex :: "StudyGuideType \<Rightarrow> jsstring \<Rightarrow> int" where
  "markerIndex type cleaned =
     (if type = Flashcards then re_search flashcardMarker cleaned
      else re_search structuralMarker cleaned)"

definition cleanContent :: "jsstring \<Rightarrow> StudyGuideType \<Rightarrow> jsstring" where
  "cleanContent content type =
     (if content = [] then []
      else
        let cleaned = foldl (\<lambda>cleaned rx. re_replace rx cleaned []) content preamblePatterns;
            idx = markerIndex type cleaned;
            cleaned = (if idx > 0 then drop (nat idx) cleaned else cleaned);
            cleaned = trim (re_replace trailingPattern cleaned []);
            cleaned = trim (re_replace_all newlines3 cleaned (js ''\<newline>\<newline>''))
        in cleaned)"

subsection \<open>Flashcards (\<^verbatim>\<open>formatContent\<close>, case \<^verbatim>\<open>'flashcards'\<close>)\<close>

record flashcard =
  question :: jsstring
  answer :: jsstring

text \<open>
  The lookahead that ends a labelled pair,
  \<^verbatim>\<open>(?=\n\s*\n|\n\s*Question:|\n\s*Q:|$)\<close>, with the two labels in the order given.
\<close>

definition pairEnd :: "string \<Rightarrow> string \<Rightarrow> re" where
  "pairEnd l1 l2 =
     Look (alts [seq [nl, rstar space, nl], seq [nl, rstar space, lit_i l1],
                 seq [nl, rstar space, lit_i l2], Eol])"

text \<open>
  \<^verbatim>\<open>/(Question:)([\s\S]*?)(?:\n|\s)+?(Answer:)([\s\S]*?)(?=\n\s*\n|\n\s*Question:|\n\s*Q:|$)/gi\<close>,
  \<^verbatim>\<open>/(Q:)([\s\S]*?)(?:\n|\s)+?(A:)([\s\S]*?)(?=\n\s*\n|\n\s*Q:|\n\s*Question:|$)/gi\<close> and
  \<^verbatim>\<open>/(?:^|\n)\s*\d+[\).]?\s+([\s\S]*?)(?:\s+)(Answer:|A:)\s*([\s\S]*?)(?=\n\s*\n|\n\s*\d+[\).]?|$)/gi\<close>
\<close>

definition closer :: re where
  "closer = Chr (\<lambda>c. c = of_char CHR '')'' \<or> c = of_char CHR ''.'')"

definition patterns :: "re list" where
  "patterns =
     [seq [Grp 1 (lit_i ''Question:''), Grp 2 (rstar_lazy anything), rplus_lazy (Alt nl space),
           Grp 3 (lit_i ''Answer:''), Grp 4 (rstar_lazy anything), pairEnd ''Question:'' ''Q:''],
      seq [Grp 1 (lit_i ''Q:''), Grp 2 (rstar_lazy anything), rplus_lazy (Alt nl space),
           Grp 3 (lit_i ''A:''), Grp 4 (rstar_lazy anything), pairEnd ''Q:'' ''Question:''],
      seq [Alt (Bol False) nl, rstar space, rplus digit, ropt closer, rplus space,
           Grp 1 (rstar_lazy anything), rplus space, Grp 2 (Alt (lit_i ''Answer:'') (lit_i ''A:'')),
           rstar space, Grp 3 (rstar_lazy anything),
           Look (alts [seq [nl, rstar space, nl], seq [nl, rstar space, rplus digit, ropt closer], Eol])]]"

text \<open>\<^verbatim>\<open>a || b\<close> for a capture \<open>a\<close>: \<^verbatim>\<open>undefined\<close> and the empty string are falsy.\<close>

definition or_else :: "jsstring option \<Rightarrow> jsstring \<Rightarrow> jsstring" where
  "or_else a b = (case a of None \<Rightarrow> b | Some s \<Rightarrow> if s = [] then b else s)"

text \<open>
  The patterns that clean a question and an answer: \<^verbatim>\<open>/^[\s\-*]+/\<close>,
  \<^verbatim>\<open>/\b(Answer:|A:)\b[\s\S]*$/i\<close>, \<^verbatim>\<open>/^\d+[\).]?\s*/\<close> and \<^verbatim>\<open>/^\s*-\s*/\<close>.
\<close>

definition leadingMarks :: re where
  "leadingMarks =
     seq [Bol False, rplus (Chr (\<lambda>c. is_space c \<or> c = of_char CHR ''-'' \<or> c = of_char CHR ''*''))]"

definition answerTail :: re where
  "answerTail =
     seq [Wordb, Grp 1 (Alt (lit_i ''Answer:'') (lit_i ''A:'')), Wordb, rstar anything, Eol]"

definition leadingNumber :: re where
  "leadingNumber = seq [Bol False, rplus digit, ropt closer, rstar space]"

definition leadingDash :: re where
  "leadingDash = seq [Bol False, rstar space, ch CHR ''-'', rstar space]"

text \<open>The body of the \<^verbatim>\<open>while\<close> loop for one match \<open>m\<close>: the card pushed, if any.\<close>

definition card_of_match :: "captures \<Rightarrow> flashcard option" where
  "card_of_match m =
     (let qRaw = or_else (capture m 2) (or_else (capture m 1) []);
          aRaw = or_else (capture m 4) (or_else (capture m 3) []);
          question = trim (re_replace leadingNumber
                       (re_replace answerTail (re_replace leadingMarks qRaw []) []) []);
          answer = trim (re_replace leadingDash aRaw [])
      in if question \<noteq> [] \<and> answer \<noteq> [] \<and> length question > 2 \<and> length answer > 1
         then Some \<lparr>question = question, answer = answer\<rparr> else None)"

text \<open>
  The loop \<^verbatim>\<open>for (const rx of patterns)\<close> with its inner \<^verbatim>\<open>while\<close> loop; \<open>flashcards\<close> is
  the array being filled. \<open>None\<close>: an inner loop does not end.
\<close>

fun run_patterns :: "re list \<Rightarrow> jsstring \<Rightarrow> flashcard list \<Rightarrow> flashcard list option" where
  "run_patterns [] cleanedContent flashcards = Some flashcards"
| "run_patterns (rx # rxs) cleanedContent flashcards =
     (case match_all rx [] cleanedContent of
        None \<Rightarrow> None
      | Some found \<Rightarrow>
          run_patterns rxs cleanedContent (flashcards @ List.map_filter card_of_match found))"

text \<open>
  The fallback. \<^verbatim>\<open>/\n\s*\n/\<close> splits the text, and each section is matched against
  \<^verbatim>\<open>/(?:^|\n)\s*(?:\d+[\).]?\s*)?(?:Question:|Q:)\s*([\s\S]*?)\s*(?:Answer:|A:)\s*([\s\S]*)/i\<close>.
  Both groups of that pattern lie on every way through it, so that \<^verbatim>\<open>inlineQA[1]\<close> and
  \<^verbatim>\<open>inlineQA[2]\<close> are strings whenever it matches.
\<close>

definition blankLine :: re where
  "blankLine = seq [nl, rstar space, nl]"

definition inlineQA :: re where
  "inlineQA =
     seq [Alt (Bol False) nl, rstar space, ropt (seq [rplus digit, ropt closer, rstar space]),
          Alt (lit_i ''Question:'') (lit_i ''Q:''), rstar space, Grp 1 (rstar_lazy anything),
          rstar space, Alt (lit_i ''Answer:'') (lit_i ''A:''), rstar space, Grp 2 (rstar anything)]"

definition card_of_section :: "jsstring \<Rightarrow> flashcard option" where
  "card_of_section section =
     (case re_exec inlineQA section of
        None \<Rightarrow> None
      | Some m \<Rightarrow>
          let q = trim (re_replace answerTail (or_else (capture m 1) []) []);
              a = trim (or_else (capture m 2) [])
          in if q \<noteq> [] \<and> a \<noteq> [] then Some \<lparr>question = q, answer = a\<rparr> else None)"

definition fallback :: "jsstring \<Rightarrow> flashcard list" where
  "fallback cleanedContent = List.map_filter card_of_section (re_split blankLine cleanedContent)"

definition extractFlashcards :: "jsstring \<Rightarrow> flashcard list option" where
  "extractFlashcards cleanedContent =
     (case run_patterns patterns cleanedContent [] of
        None \<Rightarrow> None
      | Some flashcards \<Rightarrow>
          Some (if length flashcards = 0 then fallback cleanedContent else flashcards))"

text \<open>The flashcards that \<^verbatim>\<open>formatContent(content, 'flashcards')\<close> renders.\<close>

definition formatContent_flashcards :: "jsstring \<Rightarrow> flashcard list option" where
  "formatContent_flashcards content = extractFlashcards (cleanContent content Flashcards)"

subsection \<open>\<^verbatim>\<open>parseOutline\<close>\<close>

record OutlinePoint =
  sub_title :: jsstring
  points :: "jsstring list"

record OutlineSection =
  title :: jsstring
  subtopics :: "OutlinePoint list"

text \<open>
  \<^verbatim>\<open>/^(?:(?=[MDCLXVI])M{0,4}(CM|CD|D?C{0,3})(XC|XL|L?X{0,3})(IX|IV|V?I{0,3}))\./i\<close>
\<close>

definition romanRe :: re where
  "romanRe =
     seq [Bol False,
          Look (Chr (\<lambda>c. \<exists>p \<in> set ''MDCLXVI''. chr_i (of_char p) c)),
          Rep True 0 (Some 4) (ch_i CHR ''M''),
          Grp 1 (alts [lit_i ''CM'', lit_i ''CD'', seq [ropt (ch_i CHR ''D''), Rep True 0 (Some 3) (ch_i CHR ''C'')]]),
          Grp 2 (alts [lit_i ''XC'', lit_i ''XL'', seq [ropt (ch_i CHR ''L''), Rep True 0 (Some 3) (ch_i CHR ''X'')]]),
          Grp 3 (alts [lit_i ''IX'', lit_i ''IV'', seq [ropt (ch_i CHR ''V''), Rep True 0 (Some 3) (ch_i CHR ''I'')]]),
          ch CHR ''.'']"

text \<open>\<^verbatim>\<open>/^#\s+/\<close>, \<^verbatim>\<open>/^([A-Z])\.?\s+(.*)/\<close>, \<^verbatim>\<open>/^(\d+)\.?\s+(.*)/\<close> and \<^verbatim>\<open>/^[-*]\s+(.*)/\<close>\<close>

definition headingRe :: re where
  "headingRe = seq [Bol False, ch CHR ''#'', rplus space]"

definition letterRe :: re where
  "letterRe = seq [Bol False, Grp 1 (Chr is_upper), ropt (ch CHR ''.''), rplus space, Grp 2 (rstar dot)]"

definition numberedRe :: re where
  "numberedRe = seq [Bol False, Grp 1 (rplus digit), ropt (ch CHR ''.''), rplus space, Grp 2 (rstar dot)]"

definition bulletItemRe :: re where
  "bulletItemRe =
     seq [Bol False, Chr (\<lambda>c. c = of_char CHR ''-'' \<or> c = of_char CHR ''*''), rplus space, Grp 1 (rstar dot)]"

text \<open>
  The state of the loop. \<^verbatim>\<open>currentSub\<close> is a reference to an object that was pushed on
  \<^verbatim>\<open>current.subtopics\<close>, through which its \<^verbatim>\<open>points\<close> are extended: it is modelled as the
  index of that object in \<^verbatim>\<open>current.subtopics\<close>.
\<close>

record outline_state =
  sections :: "OutlineSection list"
  current :: "OutlineSection option"
  currentSub :: "nat option"

definition push_point :: "OutlineSection \<Rightarrow> nat \<Rightarrow> jsstring \<Rightarrow> OutlineSection" where
  "push_point sec i p =
     sec\<lparr>subtopics := (subtopics sec)[i := (subtopics sec ! i)\<lparr>points := points (subtopics sec ! i) @ [p]\<rparr>]\<rparr>"

text \<open>The body of the \<^verbatim>\<open>for\<close> loop (the unused \<^verbatim>\<open>lineNoBullet\<close> is left out).\<close>

definition outline_step :: "outline_state \<Rightarrow> jsstring \<Rightarrow> outline_state" where
  "outline_step st line =
     (if re_test romanRe line \<or> re_test headingRe line then
        \<lparr>sections = (case current st of None \<Rightarrow> sections st | Some c \<Rightarrow> sections st @ [c]),
         current = Some \<lparr>title = trim (re_replace headingRe (re_replace romanRe line []) []), subtopics = []\<rparr>,
         currentSub = None\<rparr>
      else case re_exec letterRe line of
        Some letter \<Rightarrow>
          let cur = (case current st of
                       None \<Rightarrow> \<lparr>title = or_else (capture letter 2) [], subtopics = []\<rparr>
                     | Some c \<Rightarrow> c);
              sub = \<lparr>sub_title = trim (or_else (capture letter 2) []), points = []\<rparr>
          in \<lparr>sections = sections st,
              current = Some (cur\<lparr>subtopics := subtopics cur @ [sub]\<rparr>),
              currentSub = Some (length (subtopics cur))\<rparr>
      | None \<Rightarrow>
         (case (case re_exec numberedRe line of Some m \<Rightarrow> Some m | None \<Rightarrow> re_exec bulletItemRe line) of
            None \<Rightarrow> st
          | Some numbered \<Rightarrow>
              let cur = (case current st of None \<Rightarrow> \<lparr>title = js ''Outline'', subtopics = []\<rparr> | Some c \<Rightarrow> c);
                  (cur, i) = (case currentSub st of
                                None \<Rightarrow> (cur\<lparr>subtopics := subtopics cur @ [\<lparr>sub_title = js ''Details'', points = []\<rparr>]\<rparr>,
                                         length (subtopics cur))
                              | Some i \<Rightarrow> (cur, i));
                  p = (case capture numbered 2 of
                         Some s \<Rightarrow> if s \<noteq> [] then trim s else trim (or_else (capture numbered 1) [])
                       | None \<Rightarrow> trim (or_else (capture numbered 1) []))
              in \<lparr>sections = sections st, current = Some (push_point cur i p), currentSub = Some i\<rparr>))"

text \<open>\<^verbatim>\<open>/\r?\n/\<close>\<close>

definition lineBreak :: re where
  "lineBreak = seq [ropt (Chr (\<lambda>c. c = 13)), nl]"

definition parseOutline :: "jsstring \<Rightarrow> OutlineSection list" where
  "parseOutline text =
     (let lines = filter (\<lambda>l. l \<noteq> []) (map trim (re_split lineBreak text));
          st = foldl outline_step \<lparr>sections = [], current = None, currentSub = None\<rparr> lines
      in case current st of None \<Rightarrow> sections st | Some c \<Rightarrow> sections st @ [c])"

subsection \<open>\<^verbatim>\<open>extractKeyPoints\<close>\<close>

text \<open>\<^verbatim>\<open>/^(\s*[-*]|\s*\d+\.)\s+/\<close>\<close>

definition bulletRe :: re where
  "bulletRe =
     seq [Bol False,
          Grp 1 (Alt (seq [rstar space, Chr (\<lambda>c. c = of_char CHR ''-'' \<or> c = of_char CHR ''*'')])
                     (seq [rstar space, rplus digit, ch CHR ''.''])),
          rplus space]"

text \<open>\<^verbatim>\<open>lines.findIndex(p)\<close>: the index of the first element that satisfies \<open>p\<close>, or -1.\<close>

definition findIndex :: "('a \<Rightarrow> bool) \<Rightarrow> 'a list \<Rightarrow> int" where
  "findIndex p xs = (if \<exists>x \<in> set xs. p x then int (length (takeWhile (\<lambda>x. \<not> p x) xs)) else - 1)"

text \<open>The loop over \<^verbatim>\<open>bulletLines\<close>, with \<^verbatim>\<open>bullets\<close> and \<^verbatim>\<open>buf\<close> as its state.\<close>

fun bullet_loop :: "jsstring list \<Rightarrow> jsstring list \<Rightarrow> jsstring list \<Rightarrow> jsstring list \<times> jsstring list" where
  "bullet_loop [] bullets buf = (bullets, buf)"
| "bullet_loop (l # ls) bullets buf =
     (if re_test bulletRe l then
        bullet_loop ls (if buf \<noteq> [] then bullets @ [trim (join (js '' '') buf)] else bullets)
          [trim (re_replace bulletRe l [])]
      else if trim l \<noteq> [] then bullet_loop ls bullets (buf @ [trim l])
      else bullet_loop ls bullets buf)"

record KeyPoints =
  intro :: jsstring
  bullets :: "jsstring list"

definition extractKeyPoints :: "jsstring \<Rightarrow> KeyPoints" where
  "extractKeyPoints text =
     (let lines = re_split lineBreak text;
          firstBulletIdx = findIndex (re_test bulletRe) lines;
          intro = (if firstBulletIdx > 0 then trim (join (js ''\<newline>'') (take (nat firstBulletIdx) lines)) else []);
          bulletLines = (if firstBulletIdx \<ge> 0 then drop (nat firstBulletIdx) lines else lines);
          (bullets, buf) = bullet_loop bulletLines [] []
      in \<lparr>intro = intro,
          bullets = (if buf \<noteq> [] then bullets @ [trim (join (js '' '') buf)] else bullets)\<rparr>)"

subsection \<open>Notions used in the statements and proofs\<close>

text \<open>A lower bound on the number of code units that a match of a pattern consumes.\<close>

fun rminlen :: "re \<Rightarrow> nat" where
  "rminlen (Chr P) = 1"
| "rminlen (Seq a b) = rminlen a + rminlen b"
| "rminlen (Alt a b) = min (rminlen a) (rminlen b)"
| "rminlen (Grp g r) = rminlen r"
| "rminlen _ = 0"

text \<open>The string contains three line feeds in a row.\<close>

fun has_nl3 :: "jsstring \<Rightarrow> bool" where
  "has_nl3 [] = False"
| "has_nl3 (c # cs) = (3 \<le> length (takeWhile (\<lambda>x. x = 10) (c # cs)) \<or> has_nl3 cs)"

section \<open>Server: upload filter, truncation, model fallback\<close>

subsection \<open>File-type validation\<close>













subsection \<open>Truncation of the extracted text\<close>

definition maxLength :: nat where
  "maxLength = 12000"

definition truncation_marker :: jsstring where
  "truncation_marker = js ''\<newline>\<newline>[Content truncated due to length...]''"

definition truncate_content :: "jsstring \<Rightarrow> jsstring" where
  "truncate_content content =
     (if length content > maxLength then take maxLength content @ truncation_marker
      else content)"

text \<open>
  What the handler does with the extracted text before it builds the prompt: a text that is
  empty or blank ends the request with status 400, any other text goes into the prompt, cut
  to the budget.
\<close>

datatype prepared = NoReadableContent | Submitted jsstring

definition prepare_content :: "jsstring \<Rightarrow> prepared" where
  "prepare_content content =
     (if content = [] \<or> length (trim content) = 0 then NoReadableContent
      else Submitted (truncate_content content))"

subsection \<open>Model fallback loop\<close>

text \<open>
  What the loop reads of a thrown error: \<^verbatim>\<open>status\<close> and \<^verbatim>\<open>code\<close>, either of which may
  be undefined.
\<close>

record api_error =
  status :: "int option"
  code :: "jsstring option"
  message :: jsstring

datatype thrown = Thrown api_error | AllModelsFailed

definition models :: "jsstring list" where
  "models = [js ''gpt-4.1-nano-2025-04-14'', js ''gpt-4o-mini'', js ''gpt-3.5-turbo'', js ''gpt-4o'']"

text \<open>
  The \<^verbatim>\<open>for (const model of models)\<close> loop. \<open>create\<close> is the remote call
  \<^verbatim>\<open>openai.chat.completions.create\<close> for a model: it throws (\<open>Inl\<close>) or returns a completion.
  The loop state is \<^verbatim>\<open>lastError\<close> and the list of the models tried so far (the
  \<^verbatim>\<open>Trying model\<close> log lines). The result is what the code after the loop throws or
  the completion it goes on with.
\<close>

fun model_loop ::
  "(jsstring \<Rightarrow> api_error + 'c) \<Rightarrow> jsstring list \<Rightarrow> api_error option \<Rightarrow> jsstring list
     \<Rightarrow> jsstring list \<times> (thrown + 'c)" where
  "model_loop create [] lastError tried =
     (tried, case lastError of None \<Rightarrow> Inl AllModelsFailed | Some e \<Rightarrow> Inl (Thrown e))"
| "model_loop create (model # rest) lastError tried =
     (case create model of
        Inr completion \<Rightarrow> (tried @ [model], Inr completion)
      | Inl modelError \<Rightarrow>
          if status modelError \<noteq> Some 403 \<and> code modelError \<noteq> Some (js ''model_not_found'')
          then (tried @ [model], Inl (Thrown modelError))
          else model_loop create rest (Some modelError) (tried @ [model]))"

definition generate :: "(jsstring \<Rightarrow> api_error + 'c) \<Rightarrow> jsstring list \<times> (thrown + 'c)" where
  "generate create = model_loop create models None []"

text \<open>The classification of a failure as an access error (the 403 branch of the handler).\<close>

definition is_access_error :: "api_error \<Rightarrow> bool" where
  "is_access_error e \<longleftrightarrow> status e = Some 403 \<or> code e = Some (js ''model_not_found'')"

section \<open>The matcher: computing the first match\<close>

lemma first_some_append:
  "first_some k (xs @ ys) = (case first_some k xs of None \<Rightarrow> first_some k ys | Some y \<Rightarrow> Some y)"
  by (induction xs) (auto split: option.splits)

lemma first_some_concat_map:
  "first_some k (concat (map f xs)) = first_some (\<lambda>x. first_some k (f x)) xs"
  by (induction xs) (auto simp: first_some_append split: option.splits)

lemma first_some_map: "first_some k (map f xs) = first_some (\<lambda>x. k (f x)) xs"
  by (induction xs) (auto split: option.splits)

lemma first_some_single: "first_some k [x] = k x"
  by (cases "k x") auto

lemma first_some_Some: "first_some Some xs = (case xs of [] \<Rightarrow> None | x # _ \<Rightarrow> Some x)"
  by (cases xs) auto

lemma first_match_mk: "first_match r st = mk r Some st"
  by (simp add: first_match_def mk_def first_some_Some)

lemma mk_abs: "(\<lambda>x. first_some k (ms r x)) = mk r k"
  by (simp add: fun_eq_iff mk_def)

lemma mk_Chr_Nil: "mk (Chr P) k (pre, [], caps) = None"
  and mk_Chr_Cons: "mk (Chr P) k (pre, c # cs, caps) = (if P c then k (c # pre, cs, caps) else None)"
  by (simp_all add: mk_def first_some_single del: first_some.simps(2))

lemma mk_Eps: "mk Eps k (pre, rest, caps) = k (pre, rest, caps)"
  by (simp add: mk_def first_some_single del: first_some.simps(2))

lemma mk_Seq: "mk (Seq a b) k (pre, rest, caps) = mk a (mk b k) (pre, rest, caps)"
  by (simp add: mk_def first_some_concat_map mk_abs)

lemma mk_Alt: "mk (Alt a b) k (pre, rest, caps) =
   (case mk a k (pre, rest, caps) of None \<Rightarrow> mk b k (pre, rest, caps) | Some y \<Rightarrow> Some y)"
  unfolding mk_def by (simp add: first_some_append)

lemma mk_Grp: "mk (Grp g r) k (pre, rest, caps) =
   mk r (\<lambda>(pre', rest', caps'). k (pre', rest', (g, rev (take (length pre' - length pre) pre')) # caps'))
     (pre, rest, caps)"
  by (simp add: mk_def first_some_map case_prod_unfold)

lemma mk_Look: "mk (Look r) k (pre, rest, caps) =
   (case mk r Some (pre, rest, caps) of None \<Rightarrow> None | Some (pre', rest', caps') \<Rightarrow> k (pre, rest, caps'))"
  unfolding mk_def
  by (cases "ms r (pre, rest, caps)") (auto simp add: first_some_single split: option.splits)

lemma mk_Bol_Nil: "mk (Bol m) k ([], rest, caps) = k ([], rest, caps)"
  and mk_Bol_Cons: "mk (Bol m) k (c # pre, rest, caps) =
      (if m \<and> is_line_terminator c then k (c # pre, rest, caps) else None)"
  by (simp_all add: mk_def first_some_single del: first_some.simps(2))

lemma mk_Eol_Nil: "mk Eol k (pre, [], caps) = k (pre, [], caps)"
  and mk_Eol_Cons: "mk Eol k (pre, c # cs, caps) = None"
  by (simp_all add: mk_def first_some_single del: first_some.simps(2))

lemma mk_Wordb: "mk Wordb k (pre, rest, caps) =
     (if (case pre of [] \<Rightarrow> False | c # _ \<Rightarrow> is_word c) \<noteq> (case rest of [] \<Rightarrow> False | c # _ \<Rightarrow> is_word c)
      then k (pre, rest, caps) else None)"
  by (simp add: mk_def first_some_single del: first_some.simps(2))

lemma first_some_guard:
  "first_some k (concat (map (\<lambda>(p, q, c). if G q then ms r' (p, q, c) else []) xs))
   = first_some (\<lambda>(p, q, c). if G q then mk r' k (p, q, c) else None) xs"
  by (induction xs) (auto simp: first_some_append mk_def split: option.splits if_splits)

lemma mk_Rep: "mk (Rep greedy mn mx r) k (pre, rest, caps) =
     (if mx = Some 0 then k (pre, rest, caps)
      else if mn \<noteq> 0 then
        mk r (mk (Rep greedy (mn - 1) (map_option (\<lambda>m. m - 1) mx) r) k) (pre, rest, caps)
      else if greedy then
        (case mk r (\<lambda>(pre', rest', caps'). if length rest' < length rest
                       then mk (Rep greedy 0 (map_option (\<lambda>m. m - 1) mx) r) k (pre', rest', caps') else None)
                  (pre, rest, caps) of None \<Rightarrow> k (pre, rest, caps) | Some y \<Rightarrow> Some y)
      else
        (case k (pre, rest, caps) of
           None \<Rightarrow> mk r (\<lambda>(pre', rest', caps'). if length rest' < length rest
                       then mk (Rep greedy 0 (map_option (\<lambda>m. m - 1) mx) r) k (pre', rest', caps') else None)
                  (pre, rest, caps)
         | Some y \<Rightarrow> Some y))"
proof -
  let ?F = "\<lambda>r'. \<lambda>(pre', rest', caps'). if length rest' < length rest then ms r' (pre', rest', caps') else []"
  let ?K = "\<lambda>r'. \<lambda>(pre', rest', caps'). if length rest' < length rest then mk r' k (pre', rest', caps') else None"
  let ?xs = "ms r (pre, rest, caps)"
  have g: "first_some k (concat (map (?F r') ?xs)) = first_some (?K r') ?xs" for r'
    by (rule first_some_guard)
  have 1: "first_some k (concat (map (?F r') ?xs) @ [(pre, rest, caps)])
        = (case first_some (?K r') ?xs of None \<Rightarrow> k (pre, rest, caps) | Some y \<Rightarrow> Some y)" for r'
    unfolding first_some_append g first_some_single ..
  have 2: "first_some k ((pre, rest, caps) # concat (map (?F r') ?xs))
        = (case k (pre, rest, caps) of None \<Rightarrow> first_some (?K r') ?xs | Some y \<Rightarrow> Some y)" for r'
    unfolding first_some.simps g ..
  have 3: "first_some k (concat (map (ms r') ?xs)) = first_some (mk r' k) ?xs" for r'
    unfolding first_some_concat_map mk_abs ..
  consider (a) "mx = Some 0" | (b) "mx \<noteq> Some 0" "mn \<noteq> 0"
    | (c) "mx \<noteq> Some 0" "mn = 0" "greedy" | (d) "mx \<noteq> Some 0" "mn = 0" "\<not> greedy"
    by blast
  then show ?thesis
  proof cases
    case a
    have "ms (Rep greedy mn mx r) (pre, rest, caps) = [(pre, rest, caps)]"
      by (subst ms.simps) (simp add: a del: ms.simps)
    then show ?thesis
      unfolding mk_def[of "Rep greedy mn mx r"] by (simp add: first_some_single a del: first_some.simps(2))
  next
    case b
    have "ms (Rep greedy mn mx r) (pre, rest, caps)
          = concat (map (ms (Rep greedy (mn - 1) (map_option (\<lambda>m. m - 1) mx) r)) ?xs)"
      by (subst ms.simps) (simp add: b del: ms.simps)
    then show ?thesis
      unfolding mk_def[of "Rep greedy mn mx r"] mk_def[of r] by (simp only: 3 b if_True if_False simp_thms)
  next
    case c
    have "ms (Rep greedy mn mx r) (pre, rest, caps)
          = concat (map (?F (Rep greedy 0 (map_option (\<lambda>m. m - 1) mx) r)) ?xs) @ [(pre, rest, caps)]"
      by (subst ms.simps) (simp add: c del: ms.simps)
    then show ?thesis
      unfolding mk_def[of "Rep greedy mn mx r"] mk_def[of r]
      by (simp only: 1 c if_True if_False simp_thms)
  next
    case d
    have "ms (Rep greedy mn mx r) (pre, rest, caps)
          = (pre, rest, caps) # concat (map (?F (Rep greedy 0 (map_option (\<lambda>m. m - 1) mx) r)) ?xs)"
      by (subst ms.simps) (simp add: d del: ms.simps)
    then show ?thesis
      unfolding mk_def[of "Rep greedy mn mx r"] mk_def[of r]
      by (simp only: 2 d if_True if_False simp_thms)
  qed
qed

lemmas mk_simps = mk_Chr_Nil mk_Chr_Cons mk_Eps mk_Seq mk_Alt mk_Grp mk_Look mk_Bol_Nil mk_Bol_Cons
  mk_Eol_Nil mk_Eol_Cons mk_Wordb mk_Rep

lemmas class_defs = is_space_def is_line_terminator_def is_digit_def is_upper_def is_lower_def
  is_word_def chr_i_def

lemmas pattern_defs = ch_def ch_i_def lit_def lit_i_def space_def digit_def anything_def dot_def
  nl_def rstar_def rplus_def ropt_def rstar_lazy_def rplus_lazy_def

lemmas op_defs = re_exec_def capture_def re_test_def re_search_def re_replace_def re_replace_all_def
  re_split_def trim_def or_else_def js_def

lemmas re_eval = first_match_mk mk_simps class_defs pattern_defs op_defs


subsection \<open>What a match consumes\<close>

lemma ms_shrinks:
  "(pre', rest', caps') \<in> set (ms r (pre, rest, caps)) \<Longrightarrow> length rest' + rminlen r \<le> length rest"
proof (induction r "(pre, rest, caps)" arbitrary: pre rest caps pre' rest' caps' rule: ms.induct)
  case (1 P pre rest caps)
  then show ?case by (auto split: list.splits if_splits)
next
  case (2 st)
  then show ?case by auto
next
  case (3 a b st)
  then show ?case by fastforce
next
  case (4 a b st)
  then show ?case by fastforce
next
  case (5 g r pre rest caps)
  then show ?case by fastforce
next
  case (6 r pre rest caps)
  then show ?case by (auto split: list.splits)
next
  case (7 multiline pre rest caps)
  then show ?case by (auto split: list.splits if_splits)
next
  case (8 pre rest caps)
  then show ?case by (auto split: list.splits)
next
  case (9 pre rest caps)
  then show ?case by (auto split: if_splits)
next
  case (10 greedy mn mx r pre rest caps)
  note IH = "10.hyps" and prems = "10.prems"
  have E: "(pre', rest', caps') \<in> set
     (if mx = Some 0 then [(pre, rest, caps)]
      else if mn \<noteq> 0 then
        concat (map (ms (Rep greedy (mn - 1) (map_option (\<lambda>m. m - 1) mx) r)) (ms r (pre, rest, caps)))
      else if greedy then
        concat (map (\<lambda>(pre', rest', caps'). if length rest' < length rest
                       then ms (Rep greedy 0 (map_option (\<lambda>m. m - 1) mx) r) (pre', rest', caps') else [])
                  (ms r (pre, rest, caps))) @ [(pre, rest, caps)]
      else
        (pre, rest, caps) #
        concat (map (\<lambda>(pre', rest', caps'). if length rest' < length rest
                       then ms (Rep greedy 0 (map_option (\<lambda>m. m - 1) mx) r) (pre', rest', caps') else [])
                  (ms r (pre, rest, caps))))"
    using prems by (subst (asm) ms.simps)
  show ?case
  proof (cases "mx = Some 0")
    case True
    with E show ?thesis by (simp del: ms.simps)
  next
    case mx: False
    show ?thesis
    proof (cases "mn = 0")
      case False
      with mx E obtain p q c where pq: "(p, q, c) \<in> set (ms r (pre, rest, caps))"
        and x: "(pre', rest', caps') \<in> set (ms (Rep greedy (mn - 1) (map_option (\<lambda>m. m - 1) mx) r) (p, q, c))"
        by (auto simp del: ms.simps)
      from IH(1)[OF mx False pq] have "length q \<le> length rest" by simp
      moreover from IH(2)[OF mx False pq x] have "length rest' \<le> length q" by simp
      ultimately show ?thesis by simp
    next
      case True
      then have nmn: "\<not> mn \<noteq> 0" by simp
      from mx True E consider "(pre', rest', caps') = (pre, rest, caps)"
        | p q c where "(p, q, c) \<in> set (ms r (pre, rest, caps))" "length q < length rest"
            "(pre', rest', caps') \<in> set (ms (Rep greedy 0 (map_option (\<lambda>m. m - 1) mx) r) (p, q, c))"
        by (cases greedy) (auto simp del: ms.simps split: if_splits)
      then show ?thesis
      proof cases
        case 1
        then show ?thesis by simp
      next
        case 2
        have "length rest' \<le> length q"
        proof (cases greedy)
          case g: True
          from IH(4)[OF mx nmn g 2(1) refl refl 2(2) 2(3)] show ?thesis by simp
        next
          case g: False
          from IH(6)[OF mx nmn g 2(1) refl refl 2(2) 2(3)] show ?thesis by simp
        qed
        with 2(2) show ?thesis by simp
      qed
    qed
  qed
qed

lemma first_match_shrinks:
  "first_match r (pre, rest, caps) = Some (pre', rest', caps') \<Longrightarrow> length rest' + rminlen r \<le> length rest"
  using ms_shrinks[of pre' rest' caps' r pre rest caps]
  by (auto simp: first_match_def split: list.splits)

lemma match_all_terminates:
  "0 < rminlen r \<Longrightarrow> \<exists>found. match_all r pre rest = Some found"
proof (induction r pre rest rule: match_all.induct)
  case (1 r pre)
  then show ?case
    using first_match_shrinks[of r pre "[]" "[]"] by (cases "first_match r (pre, [], [])") auto
next
  case (2 r pre c cs)
  show ?case
  proof (cases "first_match r (pre, c # cs, [])")
    case None
    with 2 show ?thesis by simp
  next
    case (Some x)
    obtain p' r' c' where x: "x = (p', r', c')" by (cases x) auto
    from first_match_shrinks[OF Some[unfolded x]] 2(3) have lt: "length r' < length (c # cs)" by simp
    from 2(2)[OF Some[unfolded x] refl refl lt 2(3)] obtain found where "match_all r p' r' = Some found" by blast
    with Some x lt show ?thesis by simp
  qed
qed

subsection \<open>Greedy quantifiers on a character class, anchored patterns\<close>

lemma mk_star_Chr:
  "k (rev (takeWhile P rest) @ pre, dropWhile P rest, caps) \<noteq> None \<Longrightarrow>
   mk (Rep True 0 None (Chr P)) k (pre, rest, caps)
     = k (rev (takeWhile P rest) @ pre, dropWhile P rest, caps)"
proof (induction rest arbitrary: pre)
  case Nil
  then show ?case by (subst mk_Rep) (auto simp: mk_Chr_Nil)
next
  case (Cons c cs)
  show ?case
  proof (cases "P c")
    case True
    with Cons.prems have "k (rev (takeWhile P cs) @ c # pre, dropWhile P cs, caps) \<noteq> None" by simp
    from Cons.IH[OF this] this True show ?thesis
      by (subst mk_Rep) (auto simp: mk_Chr_Cons)
  next
    case False
    then show ?thesis by (subst mk_Rep) (auto simp: mk_Chr_Cons)
  qed
qed

lemma mk_Rep_Suc_Chr:
  "mk (Rep True (Suc n) None (Chr P)) k (pre, rest, caps)
     = (case rest of [] \<Rightarrow> None
        | c # cs \<Rightarrow> if P c then mk (Rep True n None (Chr P)) k (c # pre, cs, caps) else None)"
  by (subst mk_Rep) (simp add: mk_Chr_Nil mk_Chr_Cons split: list.splits)

lemma exec_from_Bol_later: "pre \<noteq> [] \<Longrightarrow> exec_from (Seq (Bol False) r) pre rest = None"
proof (induction rest arbitrary: pre)
  case Nil
  then show ?case by (cases pre) (auto simp: first_match_mk mk_Seq mk_Bol_Cons)
next
  case (Cons c cs)
  then show ?case by (cases pre) (auto simp: first_match_mk mk_Seq mk_Bol_Cons)
qed

lemma exec_from_anchored:
  "exec_from (Seq (Bol False) r) [] s
     = (case mk r Some ([], s, []) of None \<Rightarrow> None | Some x \<Rightarrow> Some ([], x))"
  by (cases s) (auto simp: first_match_mk mk_Seq mk_Bol_Nil exec_from_Bol_later split: option.splits)

lemma mk_opt_Chr_hit:
  "P c \<Longrightarrow> k (c # pre, cs, caps) \<noteq> None \<Longrightarrow>
   mk (Rep True 0 (Some 1) (Chr P)) k (pre, c # cs, caps) = k (c # pre, cs, caps)"
  by (subst mk_Rep, simp add: mk_Chr_Cons, subst mk_Rep) auto

lemma mk_opt_Chr_hit':
  "P c \<Longrightarrow> k (c # pre, cs, caps) \<noteq> None \<Longrightarrow>
   mk (Rep True 0 (Some (Suc 0)) (Chr P)) k (pre, c # cs, caps) = k (c # pre, cs, caps)"
  using mk_opt_Chr_hit by simp

lemma mk_Grp_star_Chr:
  "mk (Grp g (Rep True 0 None (Chr P))) Some (pre, rest, caps)
     = Some (rev (takeWhile P rest) @ pre, dropWhile P rest, (g, takeWhile P rest) # caps)"
  by (simp add: mk_Grp mk_star_Chr)

lemma mk_plus_Chr:
  "mk (Rep True (Suc 0) None (Chr P)) k (pre, c # cs, caps)
     = (if P c then mk (Rep True 0 None (Chr P)) k (c # pre, cs, caps) else None)"
  by (simp add: mk_Rep_Suc_Chr)

section \<open>Lemmas: client\<close>

lemmas clean_defs = cleanContent_def markerIndex_def preamblePatterns_def preamble_def
  flashcardMarker_def structuralMarker_def trailingPattern_def newlines3_def

lemmas flash_defs = formatContent_flashcards_def extractFlashcards_def patterns_def pairEnd_def
  closer_def card_of_match_def leadingMarks_def answerTail_def leadingNumber_def leadingDash_def
  fallback_def card_of_section_def blankLine_def inlineQA_def

lemmas outline_defs = parseOutline_def outline_step_def romanRe_def headingRe_def letterRe_def
  numberedRe_def bulletItemRe_def lineBreak_def push_point_def

lemmas points_defs = extractKeyPoints_def bulletRe_def lineBreak_def findIndex_def

subsection \<open>\<^verbatim>\<open>trim\<close> and the runs of line feeds\<close>

lemma last_dropWhile_ne: "dropWhile P xs \<noteq> [] \<Longrightarrow> last (dropWhile P xs) = last xs"
  by (induction xs) (auto split: if_splits)

lemma trim_idem: "trim (trim s) = trim s"
proof -
  let ?t = "dropWhile is_space s"
  let ?u = "dropWhile is_space (rev ?t)"
  have "dropWhile is_space (rev ?u) = rev ?u"
  proof (cases "?u = []")
    case True
    show ?thesis unfolding True by simp
  next
    case False
    then have "rev ?t \<noteq> []" by (metis dropWhile.simps(1))
    then have t: "?t \<noteq> []" by simp
    then have "\<not> is_space (hd ?t)" by (simp add: hd_dropWhile)
    moreover have "hd (rev ?u) = last ?u" using False by (simp add: hd_rev)
    moreover have "last ?u = last (rev ?t)" using False by (simp add: last_dropWhile_ne)
    moreover have "last (rev ?t) = hd ?t" using t by (simp add: last_rev)
    ultimately have "\<not> is_space (hd (rev ?u))" by simp
    then show ?thesis by (simp add: dropWhile_eq_self_iff)
  qed
  moreover have "dropWhile is_space ?u = ?u" by simp
  ultimately show ?thesis by (simp add: trim_def)
qed

lemma trim_sub: "\<exists>a b. s = a @ trim s @ b"
proof -
  let ?t = "dropWhile is_space s"
  have 1: "s = takeWhile is_space s @ ?t" by simp
  have 2: "rev ?t = takeWhile is_space (rev ?t) @ dropWhile is_space (rev ?t)" by simp
  then have "?t = rev (dropWhile is_space (rev ?t)) @ rev (takeWhile is_space (rev ?t))"
    by (metis rev_append rev_rev_ident)
  with 1 have "s = takeWhile is_space s @ trim s @ rev (takeWhile is_space (rev ?t))"
    by (simp add: trim_def)
  then show ?thesis by blast
qed

lemma first_match_newlines3:
  "first_match newlines3 (pre, rest, caps)
     = (if 3 \<le> length (takeWhile (\<lambda>x. x = 10) rest)
        then Some (rev (takeWhile (\<lambda>x. x = 10) rest) @ pre, dropWhile (\<lambda>x. x = 10) rest, caps)
        else None)"
proof -
  have 3: "(3::nat) = Suc (Suc (Suc 0))" by simp
  show ?thesis
    unfolding first_match_mk newlines3_def nl_def 3 mk_Rep_Suc_Chr
    by (auto simp: mk_star_Chr split: list.splits)
qed

lemma exec_from_newlines3: "exec_from newlines3 pre rest = None \<longleftrightarrow> \<not> has_nl3 rest"
  by (induction rest arbitrary: pre) (auto simp: first_match_newlines3)

lemma replace_all_newlines3_id: "\<not> has_nl3 rest \<Longrightarrow> replace_all newlines3 t pre rest = rest"
  by (induction rest arbitrary: pre) (auto simp: first_match_newlines3)

lemma takeWhile_dropWhile_Nil: "takeWhile P (dropWhile P xs) = []"
  by (induction xs) auto

lemma has_nl3_iff: "has_nl3 s \<longleftrightarrow> (\<exists>u v. s = u @ 10 # 10 # 10 # v)"
proof
  show "has_nl3 s \<Longrightarrow> \<exists>u v. s = u @ 10 # 10 # 10 # v"
  proof (induction s)
    case Nil
    then show ?case by simp
  next
    case (Cons c cs)
    show ?case
    proof (cases "3 \<le> length (takeWhile (\<lambda>x. x = 10) (c # cs))")
      case True
      then obtain v where "c # cs = 10 # 10 # 10 # v"
        by (cases cs; cases "tl cs"; auto split: if_splits)
      then show ?thesis by (metis append_Nil)
    next
      case False
      with Cons.prems have "has_nl3 cs" by simp
      from Cons.IH[OF this] obtain u v where "cs = u @ 10 # 10 # 10 # v" by blast
      then have "c # cs = (c # u) @ 10 # 10 # 10 # v" by simp
      then show ?thesis by blast
    qed
  qed
next
  assume "\<exists>u v. s = u @ 10 # 10 # 10 # v"
  then obtain u v where "s = u @ 10 # 10 # 10 # v" by blast
  then show "has_nl3 s" by (induction u arbitrary: s) auto
qed

lemma has_nl3_trim: "has_nl3 (trim s) \<Longrightarrow> has_nl3 s"
proof -
  assume "has_nl3 (trim s)"
  then obtain u v where t: "trim s = u @ 10 # 10 # 10 # v" unfolding has_nl3_iff by blast
  from trim_sub obtain a b where "s = a @ trim s @ b" by blast
  with t have "s = (a @ u) @ 10 # 10 # 10 # (v @ b)" by simp
  then show ?thesis unfolding has_nl3_iff by blast
qed

lemma replace_all_newlines3_collapsed:
  "\<not> has_nl3 (replace_all newlines3 [10, 10] pre rest)
   \<and> length (takeWhile (\<lambda>x. x = 10) (replace_all newlines3 [10, 10] pre rest))
       \<le> min 2 (length (takeWhile (\<lambda>x. x = 10) rest))"
proof (induction "length rest" arbitrary: pre rest rule: less_induct)
  case less
  let ?nl = "\<lambda>x::nat. x = 10"
  show ?case
  proof (cases rest)
    case Nil
    then show ?thesis by (simp add: first_match_newlines3)
  next
    case (Cons c cs)
    show ?thesis
    proof (cases "3 \<le> length (takeWhile ?nl rest)")
      case True
      let ?r' = "dropWhile ?nl rest"
      let ?p' = "rev (takeWhile ?nl rest) @ pre"
      from True Cons have c: "c = 10" by (auto split: if_splits)
      have "length (takeWhile ?nl rest) + length ?r' = length rest"
        by (metis length_append takeWhile_dropWhile_id)
      with True have lt: "length ?r' < length rest" by simp
      from less[OF lt, of ?p']
      have ih: "\<not> has_nl3 (replace_all newlines3 [10, 10] ?p' ?r')"
        "length (takeWhile ?nl (replace_all newlines3 [10, 10] ?p' ?r')) \<le> min 2 (length (takeWhile ?nl ?r'))"
        by auto
      have "takeWhile ?nl ?r' = []" by (rule takeWhile_dropWhile_Nil)
      with ih(2) have z: "takeWhile ?nl (replace_all newlines3 [10, 10] ?p' ?r') = []" by simp
      have out: "replace_all newlines3 [10, 10] pre rest = 10 # 10 # replace_all newlines3 [10, 10] ?p' ?r'"
        using True lt Cons by (simp add: first_match_newlines3)
      show ?thesis unfolding out using ih(1) z True
        by (cases "replace_all newlines3 [10, 10] ?p' ?r'") (auto split: if_splits)
    next
      case False
      have lt: "length cs < length rest" using Cons by simp
      from less[OF lt, of "c # pre"]
      have ih: "\<not> has_nl3 (replace_all newlines3 [10, 10] (c # pre) cs)"
        "length (takeWhile ?nl (replace_all newlines3 [10, 10] (c # pre) cs)) \<le> min 2 (length (takeWhile ?nl cs))"
        by auto
      have out: "replace_all newlines3 [10, 10] pre rest = c # replace_all newlines3 [10, 10] (c # pre) cs"
        using False Cons by (simp add: first_match_newlines3)
      show ?thesis unfolding out using ih False Cons
        by (auto split: if_splits)
    qed
  qed
qed

subsection \<open>\<^verbatim>\<open>cleanContent\<close>\<close>

lemma re_replace_no_match: "\<not> re_test r s \<Longrightarrow> re_replace r s t = s"
  by (cases "exec_from r [] s") (auto simp: re_test_def re_replace_def)

lemma foldl_replace_no_match:
  "\<forall>p \<in> set ps. \<not> re_test p x \<Longrightarrow> foldl (\<lambda>cleaned rx. re_replace rx cleaned t) x ps = x"
  by (induction ps) (simp_all add: re_replace_no_match)

lemma re_test_newlines3: "re_test newlines3 s \<longleftrightarrow> has_nl3 s"
  by (simp add: re_test_def exec_from_newlines3)

lemma cleanContent_unmatched:
  assumes "\<forall>p \<in> set preamblePatterns. \<not> re_test p content"
    and "markerIndex type content \<le> 0"
    and "\<not> re_test trailingPattern content"
    and "\<not> has_nl3 content"
  shows "cleanContent content type = trim content"
proof (cases "content = []")
  case True
  then show ?thesis by (simp add: cleanContent_def trim_def)
next
  case False
  have 1: "foldl (\<lambda>cleaned rx. re_replace rx cleaned []) content preamblePatterns = content"
    using assms(1) by (rule foldl_replace_no_match)
  have 2: "re_replace trailingPattern content [] = content"
    using assms(3) by (rule re_replace_no_match)
  have "\<not> has_nl3 (trim content)" using assms(4) has_nl3_trim by blast
  then have 3: "re_replace_all newlines3 (trim content) t = trim content" for t
    by (simp add: re_replace_all_def replace_all_newlines3_id)
  show ?thesis
    using False assms(2) by (simp add: cleanContent_def Let_def 1 2 3 trim_idem)
qed

lemma cleanContent_collapsed: "\<not> has_nl3 (cleanContent content type)"
proof (cases "content = []")
  case True
  then show ?thesis by (simp add: cleanContent_def)
next
  case False
  then obtain z where "cleanContent content type = trim (replace_all newlines3 [10, 10] [] z)"
    by (simp add: cleanContent_def Let_def re_replace_all_def js_def)
  then show ?thesis
    using has_nl3_trim replace_all_newlines3_collapsed by metis
qed

lemma cleanContent_trimmed: "trim (cleanContent content type) = cleanContent content type"
  by (simp add: cleanContent_def Let_def trim_idem) (simp add: trim_def)

subsection \<open>Flashcards\<close>

lemma card_of_match_lengths:
  "card_of_match m = Some c \<Longrightarrow> 2 < length (question c) \<and> 1 < length (answer c)"
  by (auto simp: card_of_match_def Let_def split: if_splits)

lemma set_map_filter: "set (List.map_filter f xs) = {y. \<exists>x \<in> set xs. f x = Some y}"
  by (induction xs) (auto simp: List.map_filter_simps split: option.splits)

lemma run_patterns_cards:
  "\<forall>rx \<in> set rxs. 0 < rminlen rx \<Longrightarrow>
   \<exists>cards. run_patterns rxs s acc = Some cards
     \<and> (\<forall>c \<in> set cards. c \<in> set acc \<or> (\<exists>m. card_of_match m = Some c))"
proof (induction rxs arbitrary: acc)
  case Nil
  then show ?case by simp
next
  case (Cons rx rxs)
  from Cons.prems have "0 < rminlen rx" by simp
  from match_all_terminates[OF this] obtain found where f: "match_all rx [] s = Some found" by blast
  from Cons.prems have "\<forall>rx \<in> set rxs. 0 < rminlen rx" by simp
  from Cons.IH[OF this, of "acc @ List.map_filter card_of_match found"]
  obtain cards where c: "run_patterns rxs s (acc @ List.map_filter card_of_match found) = Some cards"
    "\<forall>c \<in> set cards. c \<in> set (acc @ List.map_filter card_of_match found) \<or> (\<exists>m. card_of_match m = Some c)"
    by blast
  from c(2) have "\<forall>c \<in> set cards. c \<in> set acc \<or> (\<exists>m. card_of_match m = Some c)"
    by (auto simp: set_map_filter)
  with f c(1) show ?case by simp
qed

lemma patterns_minlen: "\<forall>rx \<in> set patterns. 0 < rminlen rx"
  by (simp add: patterns_def pattern_defs pairEnd_def closer_def)

lemma fallback_nonempty: "c \<in> set (fallback s) \<Longrightarrow> question c \<noteq> [] \<and> answer c \<noteq> []"
  by (auto simp: fallback_def card_of_section_def set_map_filter Let_def split: option.splits if_splits)

subsection \<open>Outline lines\<close>

lemma or_else_Some: "or_else (Some s) [] = s"
  by (simp add: or_else_def)

lemma romanRe_no_match:
  "\<not> (\<exists>p \<in> set ''MDCLXVI''. chr_i (of_char p) L) \<Longrightarrow> \<not> re_test romanRe (L # s)"
  by (simp add: re_test_def romanRe_def exec_from_anchored mk_Seq mk_Look mk_Chr_Cons
        del: exec_from.simps)

lemma headingRe_no_match: "L \<noteq> 35 \<Longrightarrow> \<not> re_test headingRe (L # s)"
  by (simp add: re_test_def headingRe_def ch_def exec_from_anchored mk_Seq mk_Chr_Cons
        del: exec_from.simps)

lemma letterRe_match:
  assumes "is_upper L" and "is_space w"
  shows "re_exec letterRe (L # 46 # w # r)
     = Some [(2, takeWhile (\<lambda>c. \<not> is_line_terminator c) (dropWhile is_space r)), (1, [L])]"
proof -
  let ?P = "\<lambda>c. \<not> is_line_terminator c"
  let ?G2 = "Grp 2 (Rep True 0 None (Chr ?P))"
  let ?t = "takeWhile ?P (dropWhile is_space r)"
  let ?end = "(rev ?t @ rev (takeWhile is_space r) @ [w, 46, L], dropWhile ?P (dropWhile is_space r),
               [(2, ?t), (1, [L])])"
  have k2: "mk (Seq (Rep True 1 None (Chr is_space)) ?G2) Some ([46, L], w # r, [(1, [L])]) = Some ?end"
    using assms(2) by (simp add: mk_Seq mk_plus_Chr mk_star_Chr mk_Grp_star_Chr)
  have k1: "mk (Seq (Rep True 0 (Some 1) (Chr (\<lambda>c. c = 46))) (Seq (Rep True 1 None (Chr is_space)) ?G2))
              Some ([L], 46 # w # r, [(1, [L])]) = Some ?end"
    using k2 by (simp add: mk_Seq[of "Rep True 0 (Some (Suc 0)) (Chr (\<lambda>c. c = 46))"] mk_opt_Chr_hit')
  show ?thesis
    using assms(1)
    using k1
    by (simp add: re_exec_def letterRe_def pattern_defs exec_from_anchored mk_Seq[of "Grp (Suc 0) (Chr is_upper)"]
          mk_Grp mk_Chr_Cons del: exec_from.simps)
qed

section \<open>Theorems: client\<close>

text \<open>
  C1 (as stated). The normalizer is idempotent. It is not: each preamble pattern is applied
  once, in a fixed order, so a phrase that an earlier pattern would have removed can come to
  the front only after that pattern has had its turn. The first pass turns the input below
  into a text that begins with the phrase of the first pattern, and the second pass removes it.
\<close>

theorem cleanContent_idempotent_counterexample:
  "cleanContent (cleanContent (js ''I'll\<newline>Here is\<newline>abc'') Summary) Summary
     \<noteq> cleanContent (js ''I'll\<newline>Here is\<newline>abc'') Summary"
proof -
  have 1: "cleanContent (js ''I'll\<newline>Here is\<newline>abc'') Summary = js ''Here is\<newline>abc''"
    by (simp add: clean_defs re_eval Let_def)
  have 2: "cleanContent (js ''Here is\<newline>abc'') Summary = js ''abc''"
    by (simp add: clean_defs re_eval Let_def)
  show ?thesis unfolding 1 2 by (simp add: js_def)
qed

text \<open>
  C1 (amended). Normalizing a second time changes nothing whenever the result of the first
  pass has settled: no preamble pattern matches it, the marker of the kind is not found after
  position 0 in it, and the trailing-remark pattern does not match it. (The result of a pass is
  always trimmed and never has three line feeds in a row.)
\<close>

theorem cleanContent_idempotent_when_settled:
  assumes "\<forall>p \<in> set preamblePatterns. \<not> re_test p (cleanContent content type)"
    and "markerIndex type (cleanContent content type) \<le> 0"
    and "\<not> re_test trailingPattern (cleanContent content type)"
  shows "cleanContent (cleanContent content type) type = cleanContent content type"
  using cleanContent_unmatched[OF assms cleanContent_collapsed] cleanContent_trimmed by simp

theorem cleanContent_idempotent_when_settled_witness:
  "cleanContent (js ''Here is your summary:\<newline># Title\<newline>\<newline>\<newline>\<newline>Body text'') Summary
     = js ''# Title\<newline>\<newline>Body text''
   \<and> cleanContent (cleanContent (js ''Here is your summary:\<newline># Title\<newline>\<newline>\<newline>\<newline>Body text'') Summary) Summary
     = js ''# Title\<newline>\<newline>Body text''"
proof -
  let ?x = "js ''Here is your summary:\<newline># Title\<newline>\<newline>\<newline>\<newline>Body text''"
  let ?y = "js ''# Title\<newline>\<newline>Body text''"
  have y: "cleanContent ?x Summary = ?y"
    by (simp add: clean_defs re_eval Let_def)
  have 1: "\<forall>p \<in> set preamblePatterns. \<not> re_test p ?y"
    by (simp add: clean_defs re_eval)
  have 2: "markerIndex Summary ?y \<le> 0"
    by (simp add: clean_defs re_eval)
  have 3: "\<not> re_test trailingPattern ?y"
    by (simp add: clean_defs re_eval)
  from cleanContent_idempotent_when_settled[of ?x Summary, unfolded y, OF 1 2 3] y
  show ?thesis by simp
qed

text \<open>
  C2 (as stated). Every flashcard emitted has a question longer than 2 and an answer longer
  than 1, on the fallback path too. The fallback only asks for a non-empty question and a
  non-empty answer: on the input below the pattern families reject the pair for its lengths,
  nothing else is found, and the fallback emits it.
\<close>

theorem flashcards_accepted_counterexample:
  "formatContent_flashcards (js ''Q: ab A: c'') = Some [\<lparr>question = js ''ab'', answer = js ''c''\<rparr>]
   \<and> \<not> 2 < length (js ''ab'') \<and> \<not> 1 < length (js ''c'')"
  by (simp add: clean_defs flash_defs re_eval Let_def)

text \<open>
  C2 (amended). For every cleaned text the extraction ends; every flashcard found by the three
  pattern families has a trimmed question of more than 2 code units and a trimmed answer of
  more than 1; the result is the list of those cards or, when there is none, the cards of the
  blank-line fallback, each of which has a non-empty trimmed question and a non-empty trimmed
  answer.
\<close>

theorem flashcards_accepted:
  "\<exists>cards. run_patterns patterns cleaned [] = Some cards
     \<and> (\<forall>c \<in> set cards. 2 < length (question c) \<and> 1 < length (answer c))
     \<and> extractFlashcards cleaned = Some (if cards = [] then fallback cleaned else cards)
     \<and> (\<forall>c \<in> set (fallback cleaned). question c \<noteq> [] \<and> answer c \<noteq> [])"
proof -
  from run_patterns_cards[OF patterns_minlen, of cleaned "[]"]
  obtain cards where c: "run_patterns patterns cleaned [] = Some cards"
    "\<forall>c \<in> set cards. \<exists>m. card_of_match m = Some c" by auto
  from c(2) have "\<forall>c \<in> set cards. 2 < length (question c) \<and> 1 < length (answer c)"
    using card_of_match_lengths by blast
  with c(1) show ?thesis
    by (auto simp: extractFlashcards_def fallback_nonempty)
qed

theorem flashcards_accepted_witness:
  "run_patterns patterns (js ''Question: abc\<newline>Answer: de'') []
     = Some [\<lparr>question = js ''abc'', answer = js ''de''\<rparr>]
   \<and> extractFlashcards (js ''Question: abc\<newline>Answer: de'')
     = Some [\<lparr>question = js ''abc'', answer = js ''de''\<rparr>]
   \<and> fallback (js ''Question: abc\<newline>Answer: de'') = [\<lparr>question = js ''abc'', answer = js ''de''\<rparr>]"
  using flashcards_accepted[of "js ''Question: abc\<newline>Answer: de''"]
  by (simp add: flash_defs re_eval Let_def)

text \<open>
  C3 (as stated). Every line with a single-capital-letter-dot prefix starts a subtopic and
  never a section. The roman-numeral test comes first in the loop and the letters C, D, I, L,
  M, V and X are roman numerals: the line \<open>C. Gamma\<close> matches the letter pattern, yet it
  closes the open section and starts a new one.
\<close>

theorem letter_line_starts_subtopic_counterexample:
  "re_test letterRe (js ''C. Gamma'')
   \<and> parseOutline (js ''A. Alpha\<newline>B. Beta\<newline>C. Gamma'')
     = [\<lparr>title = js ''Alpha'',
         subtopics = [\<lparr>sub_title = js ''Alpha'', points = []\<rparr>, \<lparr>sub_title = js ''Beta'', points = []\<rparr>]\<rparr>,
        \<lparr>title = js ''Gamma'', subtopics = []\<rparr>]"
  by (simp add: outline_defs re_eval Let_def)

text \<open>
  C3 (amended). A line that starts with a capital letter other than C, D, I, L, M, V and X,
  a dot and a white-space character starts a new subtopic in any state of the parser: the
  subtopic is appended to the open section, or to a new section when none is open (its title
  is then the same text); the sections already closed are unchanged. The title of the subtopic
  is the text after the marker and the white space that follows it, up to the first line
  terminator, trimmed.
\<close>

theorem letter_line_starts_subtopic:
  assumes "is_upper L" and "L \<notin> set (js ''CDILMVX'')" and "is_space w"
  shows "outline_step st ([L] @ js ''.'' @ [w] @ r) =
     (let t = takeWhile (\<lambda>c. \<not> is_line_terminator c) (dropWhile is_space r);
          cur = (case current st of None \<Rightarrow> \<lparr>title = t, subtopics = []\<rparr> | Some c \<Rightarrow> c)
      in \<lparr>sections = sections st,
          current = Some (cur\<lparr>subtopics := subtopics cur @ [\<lparr>sub_title = trim t, points = []\<rparr>]\<rparr>),
          currentSub = Some (length (subtopics cur))\<rparr>)"
proof -
  have rom: "\<not> (\<exists>p \<in> set ''MDCLXVI''. chr_i (of_char p) L)"
    using assms(1,2) by (auto simp: chr_i_def is_upper_def is_lower_def js_def)
  have hd: "L \<noteq> 35" using assms(1) by (auto simp: is_upper_def)
  have line: "[L] @ js ''.'' @ [w] @ r = L # 46 # w # r" by (simp add: js_def)
  show ?thesis
    unfolding line outline_step_def
    using romanRe_no_match[OF rom] headingRe_no_match[OF hd] letterRe_match[OF assms(1,3)]
    by (cases "current st") (simp_all add: capture_def or_else_Some Let_def)
qed

theorem letter_line_starts_subtopic_witness:
  "outline_step \<lparr>sections = [], current = Some \<lparr>title = js ''Intro'', subtopics = []\<rparr>, currentSub = None\<rparr>
     (js ''B. Background'')
   = \<lparr>sections = [],
      current = Some \<lparr>title = js ''Intro'', subtopics = [\<lparr>sub_title = js ''Background'', points = []\<rparr>]\<rparr>,
      currentSub = Some 0\<rparr>"
proof -
  have 1: "is_upper 66" by (simp add: is_upper_def)
  have 2: "66 \<notin> set (js ''CDILMVX'')" by (simp add: js_def)
  have 3: "is_space 32" by (simp add: is_space_def)
  have l: "[66] @ js ''.'' @ [32] @ js ''Background'' = js ''B. Background''" by (simp add: js_def)
  from letter_line_starts_subtopic[OF 1 2 3, of _ "js ''Background''", unfolded l]
  show ?thesis by (simp add: re_eval Let_def)
qed

text \<open>
  C4. The normalizer is a total function: it is built from \<^verbatim>\<open>replace\<close>, \<^verbatim>\<open>search\<close>,
  \<^verbatim>\<open>slice\<close> and \<^verbatim>\<open>trim\<close>, none of which fails, and the matcher behind them terminates on
  every pattern and input. On an input that no preamble pattern matches, in which the marker of
  the kind is not found after position 0, and which neither the trailing-remark pattern nor
  the pattern of three or more line feeds matches, the result is the trimmed input.
\<close>

theorem cleanContent_total_trim:
  assumes "\<forall>p \<in> set preamblePatterns. \<not> re_test p content"
    and "markerIndex type content \<le> 0"
    and "\<not> re_test trailingPattern content"
    and "\<not> re_test newlines3 content"
  shows "cleanContent content type = trim content"
  using assms by (simp add: cleanContent_unmatched re_test_newlines3)

theorem cleanContent_total_trim_witness:
  "cleanContent (js ''  Plain text.\<newline>Second line. '') Summary = js ''Plain text.\<newline>Second line.''"
proof -
  let ?x = "js ''  Plain text.\<newline>Second line. ''"
  have 1: "\<forall>p \<in> set preamblePatterns. \<not> re_test p ?x"
    by (simp add: clean_defs re_eval)
  have 2: "markerIndex Summary ?x \<le> 0"
    by (simp add: clean_defs re_eval)
  have 3: "\<not> re_test trailingPattern ?x"
    by (simp add: clean_defs re_eval)
  have 4: "\<not> re_test newlines3 ?x"
    by (simp add: clean_defs re_eval)
  have "cleanContent ?x Summary = trim ?x"
    by (rule cleanContent_total_trim[OF 1 2 3 4])
  also have "trim ?x = js ''Plain text.\<newline>Second line.''"
    by (simp add: re_eval)
  finally show ?thesis .
qed

text \<open>
  C7. Cleanup and extraction on the two-card example give exactly the two flashcards, in the
  order of the input, with the labels and the surrounding white space removed.
\<close>

theorem flashcards_example:
  "formatContent_flashcards
     (js ''Question: What is X?\<newline>Answer: X is Y.\<newline>\<newline>Question: What is Z?\<newline>Answer: Z is W.'')
   = Some [\<lparr>question = js ''What is X?'', answer = js ''X is Y.''\<rparr>,
           \<lparr>question = js ''What is Z?'', answer = js ''Z is W.''\<rparr>]"
  by (simp add: clean_defs flash_defs re_eval Let_def)

text \<open>
  C8. The outline parser on the example gives two sections: the first with one subtopic that
  has the two points, the second without subtopics. The cleanup leaves this input as it is, so
  the same holds for the text that the page hands to the parser.
\<close>

theorem parseOutline_example:
  "parseOutline (js ''I. Intro\<newline>A. Background\<newline>1. Point one\<newline>2. Point two\<newline>II. Body'')
   = [\<lparr>title = js ''Intro'',
       subtopics = [\<lparr>sub_title = js ''Background'', points = [js ''Point one'', js ''Point two'']\<rparr>]\<rparr>,
      \<lparr>title = js ''Body'', subtopics = []\<rparr>]
   \<and> cleanContent (js ''I. Intro\<newline>A. Background\<newline>1. Point one\<newline>2. Point two\<newline>II. Body'') Outline
     = js ''I. Intro\<newline>A. Background\<newline>1. Point one\<newline>2. Point two\<newline>II. Body''"
  by (simp add: clean_defs outline_defs re_eval Let_def)

text \<open>
  C9. The key-points extractor on the example gives the intro and two bullets; the
  continuation line is joined to the second bullet with one space.
\<close>

theorem extractKeyPoints_example:
  "extractKeyPoints (js ''Some intro text.\<newline>- First point\<newline>- Second point continues\<newline>  here.'')
   = \<lparr>intro = js ''Some intro text.'',
      bullets = [js ''First point'', js ''Second point continues here.'']\<rparr>"
  by (simp add: points_defs re_eval Let_def)

section \<open>Theorems: server\<close>

lemma model_loop_char:
  assumes "model_loop create mds lastError tried = (tried', res)"
  shows "\<exists>n \<le> length mds. tried' = tried @ take n mds
           \<and> (\<forall>m \<in> set (take (n - 1) mds). \<exists>e. create m = Inl e \<and> is_access_error e)
           \<and> (n = 0 \<longrightarrow> mds = []
                \<and> res = (case lastError of None \<Rightarrow> Inl AllModelsFailed | Some e \<Rightarrow> Inl (Thrown e)))
           \<and> (0 < n \<longrightarrow>
                (\<forall>c. create (mds ! (n - 1)) = Inr c \<longrightarrow> res = Inr c)
                \<and> (\<forall>e. create (mds ! (n - 1)) = Inl e \<longrightarrow>
                      res = Inl (Thrown e) \<and> (is_access_error e \<longrightarrow> n = length mds)))"
  using assms
proof (induction mds arbitrary: lastError tried)
  case Nil
  then show ?case by auto
next
  case (Cons m mds)
  show ?case
  proof (cases "create m")
    case (Inr c)
    with Cons.prems have "tried' = tried @ [m]" "res = Inr c" by auto
    then show ?thesis using Inr by (intro exI[of _ 1]) auto
  next
    case (Inl e)
    show ?thesis
    proof (cases "is_access_error e")
      case False
      with Inl Cons.prems have "tried' = tried @ [m]" "res = Inl (Thrown e)"
        by (auto simp: is_access_error_def)
      then show ?thesis using Inl False by (intro exI[of _ 1]) auto
    next
      case True
      with Inl Cons.prems
      have rec: "model_loop create mds (Some e) (tried @ [m]) = (tried', res)"
        by (auto simp: is_access_error_def)
      from Cons.IH[OF rec] obtain n where n: "n \<le> length mds"
        "tried' = (tried @ [m]) @ take n mds"
        "\<forall>x \<in> set (take (n - 1) mds). \<exists>e. create x = Inl e \<and> is_access_error e"
        "n = 0 \<longrightarrow> mds = [] \<and> res = Inl (Thrown e)"
        "0 < n \<longrightarrow> (\<forall>c. create (mds ! (n - 1)) = Inr c \<longrightarrow> res = Inr c)
                \<and> (\<forall>e. create (mds ! (n - 1)) = Inl e \<longrightarrow>
                      res = Inl (Thrown e) \<and> (is_access_error e \<longrightarrow> n = length mds))"
        by auto
      show ?thesis
      proof (cases n)
        case 0
        with n Inl True show ?thesis by (intro exI[of _ 1]) auto
      next
        case (Suc k)
        have "set (take (Suc n - 1) (m # mds)) = insert m (set (take (n - 1) mds))"
          using Suc by simp
        moreover have "(m # mds) ! (Suc n - 1) = mds ! (n - 1)"
          using Suc by simp
        ultimately show ?thesis using n Inl True Suc
          by (intro exI[of _ "Suc n"]) auto
      qed
    qed
  qed
qed

text \<open>
  C5. The generation call tries the models of the fixed list in order: the models tried are
  a non-empty prefix of the list, every model tried before the last one failed with an access
  error (status 403 or code model_not_found), and the last model tried either succeeded, and
  its completion is the result, or failed, and its error is thrown to the caller; a last
  failure that is an access error occurs only when the list is exhausted. So the loop goes on
  to the next model exactly after an access error, stops at the first success, and any other
  failure leaves the loop at once.
\<close>

theorem generate_model_fallback:
  "\<exists>n. 0 < n \<and> n \<le> length models \<and> fst (generate create) = take n models
      \<and> (\<forall>m \<in> set (take (n - 1) models). \<exists>e. create m = Inl e \<and> is_access_error e)
      \<and> (\<forall>c. create (models ! (n - 1)) = Inr c \<longrightarrow> snd (generate create) = Inr c)
      \<and> (\<forall>e. create (models ! (n - 1)) = Inl e \<longrightarrow>
            snd (generate create) = Inl (Thrown e) \<and> (is_access_error e \<longrightarrow> n = length models))"
proof -
  obtain tried res where g: "model_loop create models None [] = (tried, res)"
    by (cases "model_loop create models None []") auto
  from model_loop_char[OF g] obtain n where n: "n \<le> length models"
    "tried = [] @ take n models"
    "\<forall>m \<in> set (take (n - 1) models). \<exists>e. create m = Inl e \<and> is_access_error e"
    "n = 0 \<longrightarrow> models = []"
    "0 < n \<longrightarrow> (\<forall>c. create (models ! (n - 1)) = Inr c \<longrightarrow> res = Inr c)
                \<and> (\<forall>e. create (models ! (n - 1)) = Inl e \<longrightarrow>
                      res = Inl (Thrown e) \<and> (is_access_error e \<longrightarrow> n = length models))"
    by auto
  have "models \<noteq> []" by (simp add: models_def)
  with n have "0 < n" by auto
  with n g show ?thesis
    by (intro exI[of _ n]) (auto simp: generate_def)
qed

theorem generate_model_fallback_witness:
  "fst (generate (\<lambda>m. if m = js ''gpt-3.5-turbo'' then Inr (7::nat)
                        else Inl \<lparr>status = Some 403, code = None, message = []\<rparr>))
     = take 3 models
   \<and> snd (generate (\<lambda>m. if m = js ''gpt-3.5-turbo'' then Inr (7::nat)
                        else Inl \<lparr>status = Some 403, code = None, message = []\<rparr>))
     = Inr 7
   \<and> fst (generate (\<lambda>m. if m = js ''gpt-4o-mini''
                        then Inl \<lparr>status = Some 429, code = None, message = []\<rparr>
                        else (Inl \<lparr>status = None, code = Some (js ''model_not_found''), message = []\<rparr>
                                :: api_error + nat)))
     = take 2 models
   \<and> snd (generate (\<lambda>m. if m = js ''gpt-4o-mini''
                        then Inl \<lparr>status = Some 429, code = None, message = []\<rparr>
                        else (Inl \<lparr>status = None, code = Some (js ''model_not_found''), message = []\<rparr>
                                :: api_error + nat)))
     = Inl (Thrown \<lparr>status = Some 429, code = None, message = []\<rparr>)"
  using generate_model_fallback
          [of "\<lambda>m. if m = js ''gpt-3.5-turbo'' then Inr (7::nat)
                    else Inl \<lparr>status = Some 403, code = None, message = []\<rparr>"]
        generate_model_fallback
          [of "\<lambda>m. if m = js ''gpt-4o-mini''
                    then Inl \<lparr>status = Some 429, code = None, message = []\<rparr>
                    else (Inl \<lparr>status = None, code = Some (js ''model_not_found''), message = []\<rparr>
                            :: api_error + nat)"]
  by (simp add: generate_def models_def js_def)

text \<open>
  C6. An extracted text of more than 12,000 code units is submitted as its first 12,000
  code units followed by the truncation marker; a text of at most 12,000 code units is
  submitted unchanged. (A text that is empty or blank is not submitted at all.)
\<close>

theorem truncate_content_spec:
  "(length content > 12000 \<longrightarrow>
      truncate_content content = take 12000 content @ js ''\<newline>\<newline>[Content truncated due to length...]'')
   \<and> (length content \<le> 12000 \<longrightarrow> truncate_content content = content)
   \<and> (prepare_content content = NoReadableContent
        \<or> prepare_content content = Submitted (truncate_content content))
   \<and> (trim content \<noteq> [] \<longrightarrow> prepare_content content = Submitted (truncate_content content))"
  by (auto simp: truncate_content_def maxLength_def truncation_marker_def prepare_content_def trim_def)

theorem truncate_content_spec_witness:
  "length (replicate 12001 (97::nat)) > 12000
   \<and> prepare_content (replicate 12001 97)
       = Submitted (replicate 12000 97 @ js ''\<newline>\<newline>[Content truncated due to length...]'')
   \<and> length (js ''short text'') \<le> 12000
   \<and> prepare_content (js ''short text'') = Submitted (js ''short text'')"
  using truncate_content_spec [of "replicate 12001 97"] truncate_content_spec [of "js ''short text''"]
  by (simp add: js_def trim_def is_space_def)





end
